theory Spec2Isabelle
  imports Complex_Main "HOL-Library.Sublist" "HOL-Library.AList"
begin

section \<open>Strings and the download name\<close>

text \<open>
  File names and messages are \<open>string\<close>s. The three string primitives that
  \<open>getCompressedFileName\<close> uses are written out the way ECMAScript defines them:
  \<open>split\<close> on a one-character separator always returns at least one piece (the empty
  string gives one empty piece), \<open>pop\<close> drops the last element of an array and leaves
  an empty array alone, and \<open>join\<close> puts the separator between the pieces.
\<close>

fun split :: "char \<Rightarrow> string \<Rightarrow> string list" where
  "split sep [] = [[]]"
| "split sep (c # cs) =
     (if c = sep then [] # split sep cs
      else (case split sep cs of [] \<Rightarrow> [[c]] | p # ps \<Rightarrow> (c # p) # ps))"

fun join :: "string \<Rightarrow> string list \<Rightarrow> string" where
  "join sep [] = []"
| "join sep [p] = p"
| "join sep (p # q # ps) = p @ sep @ join sep (q # ps)"

definition pop :: "'a list \<Rightarrow> 'a list" where
  "pop xs = butlast xs"

text \<open>
  \<^verbatim>\<open>
  const getCompressedFileName = (originalName: string): string => {
    const nameParts = originalName.split('.');
    nameParts.pop();
    return `${nameParts.join('.')}_KolerskyAI_compressed.jpg`;
  };
  \<close>
\<close>

definition getCompressedFileName :: "string \<Rightarrow> string" where
  "getCompressedFileName originalName =
     (let nameParts = split (CHR ''.'') originalName;
          nameParts = pop nameParts
      in join ''.'' nameParts @ ''_KolerskyAI_compressed.jpg'')"

section \<open>Messages\<close>

text \<open>
  The user-facing messages of the source are Russian string literals. They are kept
  here as the UTF-8 bytes of those literals; the English gloss is given with each.
\<close>

text \<open>msgSelectImages: "Please choose image files."\<close>

definition msgSelectImages :: string where
  "msgSelectImages =
     [CHR 0xD0, CHR 0x9F, CHR 0xD0, CHR 0xBE, CHR 0xD0, CHR 0xB6, CHR 0xD0, CHR 0xB0,
      CHR 0xD0, CHR 0xBB, CHR 0xD1, CHR 0x83, CHR 0xD0, CHR 0xB9, CHR 0xD1, CHR 0x81,
      CHR 0xD1, CHR 0x82, CHR 0xD0, CHR 0xB0, CHR 0x2C, CHR 0x20, CHR 0xD0, CHR 0xB2,
      CHR 0xD1, CHR 0x8B, CHR 0xD0, CHR 0xB1, CHR 0xD0, CHR 0xB5, CHR 0xD1, CHR 0x80,
      CHR 0xD0, CHR 0xB8, CHR 0xD1, CHR 0x82, CHR 0xD0, CHR 0xB5, CHR 0x20, CHR 0xD1,
      CHR 0x84, CHR 0xD0, CHR 0xB0, CHR 0xD0, CHR 0xB9, CHR 0xD0, CHR 0xBB, CHR 0xD1,
      CHR 0x8B, CHR 0x20, CHR 0xD0, CHR 0xB8, CHR 0xD0, CHR 0xB7, CHR 0xD0, CHR 0xBE,
      CHR 0xD0, CHR 0xB1, CHR 0xD1, CHR 0x80, CHR 0xD0, CHR 0xB0, CHR 0xD0, CHR 0xB6,
      CHR 0xD0, CHR 0xB5, CHR 0xD0, CHR 0xBD, CHR 0xD0, CHR 0xB8, CHR 0xD0, CHR 0xB9,
      CHR 0x2E]"

text \<open>msgReadNotString: "Could not read the file."\<close>

definition msgReadNotString :: string where
  "msgReadNotString =
     [CHR 0xD0, CHR 0x9D, CHR 0xD0, CHR 0xB5, CHR 0x20, CHR 0xD1, CHR 0x83, CHR 0xD0,
      CHR 0xB4, CHR 0xD0, CHR 0xB0, CHR 0xD0, CHR 0xBB, CHR 0xD0, CHR 0xBE, CHR 0xD1,
      CHR 0x81, CHR 0xD1, CHR 0x8C, CHR 0x20, CHR 0xD0, CHR 0xBF, CHR 0xD1, CHR 0x80,
      CHR 0xD0, CHR 0xBE, CHR 0xD1, CHR 0x87, CHR 0xD0, CHR 0xB8, CHR 0xD1, CHR 0x82,
      CHR 0xD0, CHR 0xB0, CHR 0xD1, CHR 0x82, CHR 0xD1, CHR 0x8C, CHR 0x20, CHR 0xD1,
      CHR 0x84, CHR 0xD0, CHR 0xB0, CHR 0xD0, CHR 0xB9, CHR 0xD0, CHR 0xBB, CHR 0x2E]"

text \<open>msgReadError: "File read error."\<close>

definition msgReadError :: string where
  "msgReadError =
     [CHR 0xD0, CHR 0x9E, CHR 0xD1, CHR 0x88, CHR 0xD0, CHR 0xB8, CHR 0xD0, CHR 0xB1,
      CHR 0xD0, CHR 0xBA, CHR 0xD0, CHR 0xB0, CHR 0x20, CHR 0xD1, CHR 0x87, CHR 0xD1,
      CHR 0x82, CHR 0xD0, CHR 0xB5, CHR 0xD0, CHR 0xBD, CHR 0xD0, CHR 0xB8, CHR 0xD1,
      CHR 0x8F, CHR 0x20, CHR 0xD1, CHR 0x84, CHR 0xD0, CHR 0xB0, CHR 0xD0, CHR 0xB9,
      CHR 0xD0, CHR 0xBB, CHR 0xD0, CHR 0xB0, CHR 0x2E]"

text \<open>msgNoContext: "Could not get the canvas context."\<close>

definition msgNoContext :: string where
  "msgNoContext =
     [CHR 0xD0, CHR 0x9D, CHR 0xD0, CHR 0xB5, CHR 0x20, CHR 0xD1, CHR 0x83, CHR 0xD0,
      CHR 0xB4, CHR 0xD0, CHR 0xB0, CHR 0xD0, CHR 0xBB, CHR 0xD0, CHR 0xBE, CHR 0xD1,
      CHR 0x81, CHR 0xD1, CHR 0x8C, CHR 0x20, CHR 0xD0, CHR 0xBF, CHR 0xD0, CHR 0xBE,
      CHR 0xD0, CHR 0xBB, CHR 0xD1, CHR 0x83, CHR 0xD1, CHR 0x87, CHR 0xD0, CHR 0xB8,
      CHR 0xD1, CHR 0x82, CHR 0xD1, CHR 0x8C, CHR 0x20, CHR 0xD0, CHR 0xBA, CHR 0xD0,
      CHR 0xBE, CHR 0xD0, CHR 0xBD, CHR 0xD1, CHR 0x82, CHR 0xD0, CHR 0xB5, CHR 0xD0,
      CHR 0xBA, CHR 0xD1, CHR 0x81, CHR 0xD1, CHR 0x82, CHR 0x20, CHR 0xD1, CHR 0x85,
      CHR 0xD0, CHR 0xBE, CHR 0xD0, CHR 0xBB, CHR 0xD1, CHR 0x81, CHR 0xD1, CHR 0x82,
      CHR 0xD0, CHR 0xB0, CHR 0x2E]"

text \<open>msgNoBlob: "Could not create the blob."\<close>

definition msgNoBlob :: string where
  "msgNoBlob =
     [CHR 0xD0, CHR 0x9D, CHR 0xD0, CHR 0xB5, CHR 0x20, CHR 0xD1, CHR 0x83, CHR 0xD0,
      CHR 0xB4, CHR 0xD0, CHR 0xB0, CHR 0xD0, CHR 0xBB, CHR 0xD0, CHR 0xBE, CHR 0xD1,
      CHR 0x81, CHR 0xD1, CHR 0x8C, CHR 0x20, CHR 0xD1, CHR 0x81, CHR 0xD0, CHR 0xBE,
      CHR 0xD0, CHR 0xB7, CHR 0xD0, CHR 0xB4, CHR 0xD0, CHR 0xB0, CHR 0xD1, CHR 0x82,
      CHR 0xD1, CHR 0x8C, CHR 0x20, CHR 0x62, CHR 0x6C, CHR 0x6F, CHR 0x62, CHR 0x2E]"

text \<open>msgImageError: "Could not load the image."\<close>

definition msgImageError :: string where
  "msgImageError =
     [CHR 0xD0, CHR 0x9D, CHR 0xD0, CHR 0xB5, CHR 0x20, CHR 0xD1, CHR 0x83, CHR 0xD0,
      CHR 0xB4, CHR 0xD0, CHR 0xB0, CHR 0xD0, CHR 0xBB, CHR 0xD0, CHR 0xBE, CHR 0xD1,
      CHR 0x81, CHR 0xD1, CHR 0x8C, CHR 0x20, CHR 0xD0, CHR 0xB7, CHR 0xD0, CHR 0xB0,
      CHR 0xD0, CHR 0xB3, CHR 0xD1, CHR 0x80, CHR 0xD1, CHR 0x83, CHR 0xD0, CHR 0xB7,
      CHR 0xD0, CHR 0xB8, CHR 0xD1, CHR 0x82, CHR 0xD1, CHR 0x8C, CHR 0x20, CHR 0xD0,
      CHR 0xB8, CHR 0xD0, CHR 0xB7, CHR 0xD0, CHR 0xBE, CHR 0xD0, CHR 0xB1, CHR 0xD1,
      CHR 0x80, CHR 0xD0, CHR 0xB0, CHR 0xD0, CHR 0xB6, CHR 0xD0, CHR 0xB5, CHR 0xD0,
      CHR 0xBD, CHR 0xD0, CHR 0xB8, CHR 0xD0, CHR 0xB5, CHR 0x2E]"

text \<open>msgFallback: "Could not compress."\<close>

definition msgFallback :: string where
  "msgFallback =
     [CHR 0xD0, CHR 0x9D, CHR 0xD0, CHR 0xB5, CHR 0x20, CHR 0xD1, CHR 0x83, CHR 0xD0,
      CHR 0xB4, CHR 0xD0, CHR 0xB0, CHR 0xD0, CHR 0xBB, CHR 0xD0, CHR 0xBE, CHR 0xD1,
      CHR 0x81, CHR 0xD1, CHR 0x8C, CHR 0x20, CHR 0xD1, CHR 0x81, CHR 0xD0, CHR 0xB6,
      CHR 0xD0, CHR 0xB0, CHR 0xD1, CHR 0x82, CHR 0xD1, CHR 0x8C, CHR 0x2E]"

section \<open>Data model\<close>

text \<open>
  A \<open>File\<close> of the browser: the source reads its \<open>name\<close>, \<open>type\<close> and \<open>size\<close>;
  the bytes are what the file reader hands to the image decoder. The \<open>size\<close> fields
  carry a suffix because \<open>size\<close> is a constant of HOL.
\<close>

record File =
  name :: string
  type :: string
  size_file :: nat
  content :: string

type_synonym blob = string

type_synonym url = nat

text \<open>
  \<^verbatim>\<open>
  interface CompressedResult { blob: Blob; size: number; url: string; }
  \<close>
  An object URL is an opaque unique token; it is numbered in the order of creation.
\<close>

record compressedResult =
  blob :: blob
  size_result :: nat
  url :: url

text \<open>
  A JavaScript \<open>Map\<close> keeps its entries in insertion order and \<open>set\<close> overwrites the
  value of a key that is present, in place. This is an association list with
  \<open>AList.update\<close>; \<open>get\<close> is \<open>map_of\<close> and \<open>forEach\<close> walks the list.
\<close>

type_synonym 'v jsmap = "(string \<times> 'v) list"

text \<open>
  The component state, one field per \<open>useState\<close> of \<open>App\<close>. The quality is a decimal
  fraction and is held as an exact rational.
\<close>

record appState =
  originalFiles :: "File list"
  quality :: rat
  isProcessing :: bool
  compressedResults :: "compressedResult jsmap"
  errors :: "string jsmap"

definition initialState :: appState where
  "initialState =
     \<lparr>originalFiles = [], quality = 8 / 10, isProcessing = False,
      compressedResults = [], errors = []\<rparr>"

text \<open>
  The quality slider, with the attributes of the \<open>input\<close> element:
  \<open>min="0.1" max="1" step="0.05"\<close>. A range input offers the values
  \<open>min + k * step\<close> that do not exceed \<open>max\<close>.
\<close>

record rangeInput =
  range_min :: rat
  range_max :: rat
  range_step :: rat

definition qualityInput :: rangeInput where
  "qualityInput = \<lparr>range_min = 1 / 10, range_max = 1, range_step = 5 / 100\<rparr>"

definition rangeValues :: "rangeInput \<Rightarrow> rat list" where
  "rangeValues r =
     map (\<lambda>k. range_min r + of_nat k * range_step r)
       [0 ..< Suc (nat \<lfloor>(range_max r - range_min r) / range_step r\<rfloor>)]"

section \<open>Object URLs\<close>

text \<open>
  The browser's registry of object URLs: how many have been created (the URLs are
  \<open>0 ..< created\<close>) and the log of every call of \<open>URL.revokeObjectURL\<close>, in order,
  so that a URL revoked twice appears twice.
\<close>

record urlStore =
  created :: nat
  revocations :: "url list"

definition emptyStore :: urlStore where
  "emptyStore = \<lparr>created = 0, revocations = []\<rparr>"

definition createObjectURL :: "blob \<Rightarrow> urlStore \<Rightarrow> url \<times> urlStore" where
  "createObjectURL b st = (created st, st\<lparr>created := Suc (created st)\<rparr>)"

definition revokeObjectURL :: "url \<Rightarrow> urlStore \<Rightarrow> urlStore" where
  "revokeObjectURL u st = st\<lparr>revocations := revocations st @ [u]\<rparr>"

text \<open>\<open>m.forEach(result => URL.revokeObjectURL(result.url))\<close>\<close>

definition revokeAll :: "compressedResult jsmap \<Rightarrow> urlStore \<Rightarrow> urlStore" where
  "revokeAll m st = fold (\<lambda>(k, result). revokeObjectURL (url result)) m st"

section \<open>The file filter\<close>

text \<open>
  \<^verbatim>\<open>
  const handleFileSelect = (files: File[]) => {
    const imageFiles = Array.from(files).filter(file => file.type.startsWith('image/'));
    if (imageFiles.length === 0 && files.length > 0) {
       setErrors(new Map([['global', '...']]));
       return;
    }
    setErrors(new Map());
    setOriginalFiles(imageFiles.slice(0, 5)); // Limit to 5 files
    setCompressedResults(new Map());
  };
  \<close>
\<close>

definition isImage :: "File \<Rightarrow> bool" where
  "isImage f = prefix ''image/'' (type f)"

definition handleFileSelect :: "File list \<Rightarrow> appState \<Rightarrow> appState" where
  "handleFileSelect files s =
     (let imageFiles = filter isImage files in
      if length imageFiles = 0 \<and> length files > 0
      then s\<lparr>errors := [(''global'', msgSelectImages)]\<rparr>
      else s\<lparr>errors := [], originalFiles := take 5 imageFiles, compressedResults := []\<rparr>)"

text \<open>
  \<^verbatim>\<open>
  const handleReset = () => {
    compressedResults.forEach(result => URL.revokeObjectURL(result.url));
    setOriginalFiles([]);
    setCompressedResults(new Map());
    setErrors(new Map());
    setQuality(0.8);
  };
  \<close>
\<close>

definition handleReset :: "appState \<times> urlStore \<Rightarrow> appState \<times> urlStore" where
  "handleReset = (\<lambda>(s, st).
     (s\<lparr>originalFiles := [], compressedResults := [], errors := [], quality := 8 / 10\<rparr>,
      revokeAll (compressedResults s) st))"

section \<open>The compression task\<close>

text \<open>
  What the browser does is a parameter of the model, one function per primitive that
  \<open>compressFile\<close> calls: the file reader (\<open>onerror\<close>, or \<open>onload\<close> with a result that
  is a string or not), the image decoder (\<open>onload\<close> or \<open>onerror\<close> for a source), the
  canvas context (present or \<open>null\<close> for a canvas of the image's width and height) and
  the JPEG encoder behind \<open>canvas.toBlob\<close> (a blob or \<open>null\<close>). Each is a function:
  the same input gives the same answer.
\<close>

datatype readerEvent = ReaderError | ReaderLoad "string option"

record image =
  width :: nat
  height :: nat
  pixels :: string

datatype imageEvent = ImageError | ImageLoad image

record browserEnv =
  readAsDataURL :: "File \<Rightarrow> readerEvent"
  loadImage :: "string \<Rightarrow> imageEvent"
  getContext :: "nat \<Rightarrow> nat \<Rightarrow> bool"
  toBlob :: "image \<Rightarrow> rat \<Rightarrow> blob option"

text \<open>
  The reason of a rejected promise has type \<open>any\<close>: an \<open>Error\<close> object with its
  message, or some other value. \<open>String_of\<close> is the conversion \<open>String(reason)\<close>.
\<close>

datatype reason = Error string | Undefined | Null | Str string

fun String_of :: "reason \<Rightarrow> string" where
  "String_of (Error m) = (if m = [] then ''Error'' else ''Error: '' @ m)"
| "String_of Undefined = ''undefined''"
| "String_of Null = ''null''"
| "String_of (Str s) = s"

text \<open>
  \<open>compressFile\<close> resolves with a result or rejects with an \<open>Error\<close>; the object URL
  is created when the blob arrives. The primitives are taken to answer through their
  callbacks and not to throw, so that the promise always settles.
\<close>

definition compressFile ::
  "browserEnv \<Rightarrow> File \<Rightarrow> rat \<Rightarrow> urlStore \<Rightarrow> (reason + compressedResult) \<times> urlStore" where
  "compressFile env file qualityValue st =
     (case readAsDataURL env file of
        ReaderError \<Rightarrow> (Inl (Error msgReadError), st)
      | ReaderLoad None \<Rightarrow> (Inl (Error msgReadNotString), st)
      | ReaderLoad (Some src) \<Rightarrow>
          (case loadImage env src of
             ImageError \<Rightarrow> (Inl (Error msgImageError), st)
           | ImageLoad img \<Rightarrow>
               if \<not> getContext env (width img) (height img)
               then (Inl (Error msgNoContext), st)
               else (case toBlob env img qualityValue of
                       None \<Rightarrow> (Inl (Error msgNoBlob), st)
                     | Some b \<Rightarrow>
                         (let (u, st') = createObjectURL b st
                          in (Inr \<lparr>blob = b, size_result = length b, url = u\<rparr>, st')))))"

section \<open>The orchestrator\<close>

text \<open>
  \<open>processFiles\<close> in three parts. Before the \<open>await\<close> (lines 103 to 110):
  \<^verbatim>\<open>
      setIsProcessing(true);
      const oldResults = new Map(compressedResults);
      setCompressedResults(new Map());
      oldResults.forEach(result => URL.revokeObjectURL(result.url));
  \<close>
\<close>

definition processFiles_begin :: "appState \<times> urlStore \<Rightarrow> appState \<times> urlStore" where
  "processFiles_begin = (\<lambda>(s, st).
     (let oldResults = compressedResults s
      in (s\<lparr>isProcessing := True, compressedResults := []\<rparr>, revokeAll oldResults st)))"

text \<open>
  \<open>Promise.allSettled(originalFiles.map(file => compressFile(file, quality)))\<close>:
  every task runs and contributes its own outcome, in the order of the files. The tasks
  finish in no fixed order; taking them in file order only fixes which number each
  new URL gets.
\<close>

fun allSettled ::
  "browserEnv \<Rightarrow> File list \<Rightarrow> rat \<Rightarrow> urlStore \<Rightarrow> (reason + compressedResult) list \<times> urlStore" where
  "allSettled env [] q st = ([], st)"
| "allSettled env (f # fs) q st =
     (let (r, st1) = compressFile env f q st;
          (rs, st2) = allSettled env fs q st1
      in (r # rs, st2))"

text \<open>The byte size of an outcome, with the blob and the URL left out.\<close>

definition outcomeSize :: "reason + compressedResult \<Rightarrow> reason + nat" where
  "outcomeSize = map_sum id size_result"

text \<open>
  The body of \<open>results.forEach((result, index) => ...)\<close> for the file at \<open>index\<close>:
  \<^verbatim>\<open>
        if (result.status === 'fulfilled') {
          newCompressedResults.set(file.name, result.value);
        } else {
          if (result.reason instanceof Error) {
            newErrors.set(file.name, result.reason.message);
          } else {
            newErrors.set(file.name, String(result.reason) || '...');
          }
        }
  \<close>
\<close>

definition failureMessage :: "reason \<Rightarrow> string" where
  "failureMessage r =
     (case r of
        Error message \<Rightarrow> message
      | _ \<Rightarrow> (if String_of r = [] then msgFallback else String_of r))"

fun recordOutcome ::
  "File \<times> (reason + compressedResult) \<Rightarrow> compressedResult jsmap \<times> string jsmap
     \<Rightarrow> compressedResult jsmap \<times> string jsmap" where
  "recordOutcome (f, Inr v) (newCompressedResults, newErrors) =
     (AList.update (name f) v newCompressedResults, newErrors)"
| "recordOutcome (f, Inl r) (newCompressedResults, newErrors) =
     (newCompressedResults, AList.update (name f) (failureMessage r) newErrors)"

definition collectOutcomes ::
  "File list \<Rightarrow> (reason + compressedResult) list \<Rightarrow> compressedResult jsmap \<times> string jsmap" where
  "collectOutcomes files results = fold recordOutcome (zip files results) ([], [])"

text \<open>
  After the \<open>await\<close> (lines 116 to 135): the two fresh maps replace the state's.
\<close>

definition processFiles_finish ::
  "File list \<Rightarrow> (reason + compressedResult) list \<Rightarrow> appState \<Rightarrow> appState" where
  "processFiles_finish files results s =
     (let (newCompressedResults, newErrors) = collectOutcomes files results
      in s\<lparr>compressedResults := newCompressedResults, errors := newErrors,
           isProcessing := False\<rparr>)"

text \<open>A whole run of \<open>processFiles\<close> with nothing happening in between.\<close>

definition processFiles :: "browserEnv \<Rightarrow> appState \<times> urlStore \<Rightarrow> appState \<times> urlStore" where
  "processFiles env = (\<lambda>(s, st).
     (let (s1, st1) = processFiles_begin (s, st);
          (results, st2) = allSettled env (originalFiles s) (quality s) st1
      in (processFiles_finish (originalFiles s) results s1, st2)))"

section \<open>Events of the page\<close>

text \<open>
  The page between events: the component state, the URL registry and the runs of
  \<open>processFiles\<close> that wait at their \<open>await\<close>, each with the batch and the quality
  its closure captured.
\<close>

record run =
  run_files :: "File list"
  run_quality :: rat

record page =
  app :: appState
  urls :: urlStore
  inflight :: "run list"

definition initialPage :: page where
  "initialPage = \<lparr>app = initialState, urls = emptyStore, inflight = []\<rparr>"

text \<open>
  \<^verbatim>\<open>
  useEffect(() => {
    if (originalFiles.length === 0) return;
    const processFiles = async () => { ... };
    processFiles();
  }, [originalFiles, quality, compressFile]);
  \<close>
  The effect runs after a render in which the batch or the quality changed, and starts
  a run up to its \<open>await\<close>.
\<close>

definition useEffect :: "page \<Rightarrow> page" where
  "useEffect w =
     (if length (originalFiles (app w)) = 0 then w
      else (let (s, st) = processFiles_begin (app w, urls w)
            in \<lparr>app = s, urls = st,
                inflight = inflight w @
                  [\<lparr>run_files = originalFiles (app w), run_quality = quality (app w)\<rparr>]\<rparr>))"

text \<open>
  What can happen to the page. The upload zone is rendered only while the batch is empty
  and calls \<open>onFileSelect\<close> only with a non-empty selection; the slider and the reset
  button are rendered only while the batch is non-empty, and the slider is disabled
  while \<open>isProcessing\<close>. \<open>Settle n\<close> is the moment the \<open>n\<close>-th waiting run gets its
  outcomes and continues to its end.
\<close>

datatype event = Select "File list" | SetQuality rat | Reset | Settle nat

fun step :: "browserEnv \<Rightarrow> event \<Rightarrow> page \<Rightarrow> page" where
  "step env (Select files) w =
     (if originalFiles (app w) = [] \<and> files \<noteq> []
      then useEffect (w\<lparr>app := handleFileSelect files (app w)\<rparr>)
      else w)"
| "step env (SetQuality q) w =
     (if originalFiles (app w) \<noteq> [] \<and> \<not> isProcessing (app w)
         \<and> q \<in> set (rangeValues qualityInput) \<and> q \<noteq> quality (app w)
      then useEffect (w\<lparr>app := (app w)\<lparr>quality := q\<rparr>\<rparr>)
      else w)"
| "step env Reset w =
     (if originalFiles (app w) \<noteq> []
      then (let (s, st) = handleReset (app w, urls w)
            in useEffect (w\<lparr>app := s, urls := st\<rparr>))
      else w)"
| "step env (Settle n) w =
     (if n < length (inflight w)
      then (let r = inflight w ! n;
                (results, st) = allSettled env (run_files r) (run_quality r) (urls w)
            in \<lparr>app = processFiles_finish (run_files r) results (app w), urls = st,
                inflight = take n (inflight w) @ drop (Suc n) (inflight w)\<rparr>)
      else w)"

definition events :: "browserEnv \<Rightarrow> event list \<Rightarrow> page \<Rightarrow> page" where
  "events env evs w = fold (step env) evs w"

section \<open>Handles in use and handles released\<close>

text \<open>
  The URLs a list of settled outcomes carries (one for each fulfilled task), the URLs
  the results map refers to (these are the ones the page displays and offers for
  download), and what it means for a page to have its handles in order: no URL has been
  revoked twice, no two displayed results share a URL, no displayed URL has been
  revoked, and every URL revoked or displayed is one that has been created.
\<close>

fun urlsOf :: "(reason + compressedResult) list \<Rightarrow> url list" where
  "urlsOf [] = []"
| "urlsOf (Inl r # rs) = urlsOf rs"
| "urlsOf (Inr v # rs) = url v # urlsOf rs"

definition shownUrls :: "compressedResult jsmap \<Rightarrow> url list" where
  "shownUrls m = map (\<lambda>kv. url (snd kv)) m"

definition hygienic :: "page \<Rightarrow> bool" where
  "hygienic w \<longleftrightarrow>
     distinct (revocations (urls w) @ shownUrls (compressedResults (app w)))
     \<and> set (revocations (urls w) @ shownUrls (compressedResults (app w)))
         \<subseteq> {..< created (urls w)}"

section \<open>A sample browser\<close>

text \<open>
  A concrete browser for evaluating the code on concrete batches: every file is read,
  a content that starts with \<open>IMG\<close> decodes to a one-pixel-high image and anything else
  fails to decode, the canvas context is always there, and the encoder keeps
  \<open>\<lfloor>q * width\<rfloor>\<close> bytes of the pixels.
\<close>

definition sampleBrowser :: browserEnv where
  "sampleBrowser =
     \<lparr>readAsDataURL = (\<lambda>f. ReaderLoad (Some (content f))),
      loadImage = (\<lambda>src. if prefix ''IMG'' src
                          then ImageLoad \<lparr>width = length src, height = 1, pixels = src\<rparr>
                          else ImageError),
      getContext = (\<lambda>w h. True),
      toBlob = (\<lambda>img q. Some (take (nat \<lfloor>q * of_nat (width img)\<rfloor>) (pixels img)))\<rparr>"

definition photo :: File where
  "photo = \<lparr>name = ''photo.png'', type = ''image/png'', size_file = 11, content = ''IMG-photo-1''\<rparr>"

definition photoOtherFolder :: File where
  "photoOtherFolder =
     \<lparr>name = ''photo.png'', type = ''image/png'', size_file = 11, content = ''IMG-photo-2''\<rparr>"

definition corruptPhoto :: File where
  "corruptPhoto =
     \<lparr>name = ''photo.png'', type = ''image/png'', size_file = 7, content = ''garbage''\<rparr>"

definition textNotes :: File where
  "textNotes = \<lparr>name = ''notes.txt'', type = ''text/plain'', size_file = 5, content = ''hello''\<rparr>"

section \<open>Properties of the download name\<close>

lemma split_not_Nil: "split sep s \<noteq> []"
  by (induction s) (auto split: list.splits)

lemma split_without_sep: "sep \<notin> set s \<Longrightarrow> split sep s = [s]"
  by (induction s) auto

lemma split_at_sep: "split sep (a @ sep # b) = split sep a @ split sep b"
  by (induction a) (auto split: list.splits simp: split_not_Nil)

lemma join_push_char: "join sep ((c # p) # ps) = c # join sep (p # ps)"
  by (cases ps) auto

lemma join_empty_piece: "ps \<noteq> [] \<Longrightarrow> join sep ([] # ps) = sep @ join sep ps"
  by (cases ps) auto

lemma join_split: "join [sep] (split sep s) = s"
proof (induction s)
  case Nil
  show ?case by simp
next
  case (Cons c cs)
  show ?case
  proof (cases "c = sep")
    case True
    with Cons show ?thesis
      by (simp add: join_empty_piece split_not_Nil)
  next
    case False
    obtain p ps where ps: "split sep cs = p # ps"
      using split_not_Nil [of sep cs] by (cases "split sep cs") auto
    with Cons False show ?thesis
      by (simp add: join_push_char)
  qed
qed

lemma name_parts_before_last_dot:
  assumes "CHR ''.'' \<notin> set ext"
  shows "join ''.'' (pop (split (CHR ''.'') (base @ ''.'' @ ext))) = base"
proof -
  have "split (CHR ''.'') (base @ ''.'' @ ext) = split (CHR ''.'') base @ [ext]"
    using assms by (simp add: split_at_sep split_without_sep)
  then have "pop (split (CHR ''.'') (base @ ''.'' @ ext)) = split (CHR ''.'') base"
    by (simp add: pop_def)
  then show ?thesis
    by (simp add: join_split)
qed

text \<open>
  Claim C2, as the code has it. The download name is the original name with the piece
  after its last dot removed, followed by the fixed suffix
  \<open>_KolerskyAI_compressed.jpg\<close> (not the bare \<open>_compressed.jpg\<close>): the name
  \<open>photo.png\<close> becomes \<open>photo_KolerskyAI_compressed.jpg\<close>, and whatever the original
  name and extension are, the download name ends in \<open>_compressed.jpg\<close> and so in
  \<open>.jpg\<close>.
\<close>

theorem download_name_branded_suffix:
  "getCompressedFileName ''photo.png'' = ''photo_KolerskyAI_compressed.jpg''
   \<and> (\<forall>base ext. CHR ''.'' \<notin> set ext \<longrightarrow>
         getCompressedFileName (base @ ''.'' @ ext) = base @ ''_KolerskyAI_compressed.jpg'')
   \<and> (\<forall>n. suffix ''_compressed.jpg'' (getCompressedFileName n))
   \<and> (\<forall>n. suffix ''.jpg'' (getCompressedFileName n))"
proof (intro conjI allI impI)
  show "getCompressedFileName ''photo.png'' = ''photo_KolerskyAI_compressed.jpg''"
    by (simp add: getCompressedFileName_def pop_def)
next
  fix base ext :: string
  assume "CHR ''.'' \<notin> set ext"
  then show "getCompressedFileName (base @ ''.'' @ ext) = base @ ''_KolerskyAI_compressed.jpg''"
    using name_parts_before_last_dot [of ext base]
    by (simp add: getCompressedFileName_def)
next
  fix n :: string
  have "getCompressedFileName n =
          (join ''.'' (pop (split (CHR ''.'') n)) @ ''_KolerskyAI'') @ ''_compressed.jpg''"
    by (simp add: getCompressedFileName_def)
  then show "suffix ''_compressed.jpg'' (getCompressedFileName n)"
    unfolding suffix_def by blast
next
  fix n :: string
  have "getCompressedFileName n =
          (join ''.'' (pop (split (CHR ''.'') n)) @ ''_KolerskyAI_compressed'') @ ''.jpg''"
    by (simp add: getCompressedFileName_def)
  then show "suffix ''.jpg'' (getCompressedFileName n)"
    unfolding suffix_def by blast
qed

theorem download_name_branded_suffix_witness:
  "CHR ''.'' \<notin> set ''webp''
   \<and> getCompressedFileName (''holiday.2024'' @ ''.'' @ ''webp'')
       = ''holiday.2024'' @ ''_KolerskyAI_compressed.jpg''
   \<and> suffix ''.jpg'' (getCompressedFileName ''holiday.2024.webp'')"
proof -
  have dotless: "CHR ''.'' \<notin> set ''webp''"
    by simp
  from download_name_branded_suffix
  have cut: "\<forall>base ext. CHR ''.'' \<notin> set ext \<longrightarrow>
      getCompressedFileName (base @ ''.'' @ ext) = base @ ''_KolerskyAI_compressed.jpg''"
    and jpg: "\<forall>n. suffix ''.jpg'' (getCompressedFileName n)"
    by blast+
  from cut dotless
  have "getCompressedFileName (''holiday.2024'' @ ''.'' @ ''webp'')
          = ''holiday.2024'' @ ''_KolerskyAI_compressed.jpg''"
    by blast
  with dotless jpg show ?thesis
    by blast
qed

text \<open>
  Claim C2 as the specification words it fails: for \<open>photo.png\<close> the code does not
  produce \<open>photo_compressed.jpg\<close>.
\<close>

theorem download_name_photo_counterexample:
  "getCompressedFileName ''photo.png'' \<noteq> ''photo_compressed.jpg''"
  by (simp add: getCompressedFileName_def pop_def)

text \<open>
  Claim C10. A name with no dot is split into a single piece, which \<open>pop\<close> removes:
  the whole name is discarded and the result is the bare suffix, the same string for
  every such name. A name with several dots loses only the piece after its last dot.
\<close>

theorem download_name_without_dot:
  "(CHR ''.'' \<notin> set n \<longrightarrow> getCompressedFileName n = ''_KolerskyAI_compressed.jpg'')
   \<and> (CHR ''.'' \<notin> set ext \<longrightarrow>
        getCompressedFileName (base @ ''.'' @ ext) = base @ ''_KolerskyAI_compressed.jpg'')"
proof (intro conjI impI)
  assume "CHR ''.'' \<notin> set n"
  then have "split (CHR ''.'') n = [n]"
    by (rule split_without_sep)
  then show "getCompressedFileName n = ''_KolerskyAI_compressed.jpg''"
    by (simp add: getCompressedFileName_def pop_def)
next
  assume "CHR ''.'' \<notin> set ext"
  then show "getCompressedFileName (base @ ''.'' @ ext) = base @ ''_KolerskyAI_compressed.jpg''"
    using name_parts_before_last_dot [of ext base]
    by (simp add: getCompressedFileName_def)
qed

theorem download_name_without_dot_witness:
  "CHR ''.'' \<notin> set ''README''
   \<and> getCompressedFileName ''README'' = ''_KolerskyAI_compressed.jpg''
   \<and> CHR ''.'' \<notin> set ''gz''
   \<and> getCompressedFileName ''archive.tar.gz'' = ''archive.tar_KolerskyAI_compressed.jpg''"
  using download_name_without_dot [of "''README''" "''gz''" "''archive.tar''"] by simp

section \<open>Properties of the file filter\<close>

text \<open>
  Claim C4. A selection that is not empty and holds no file whose media type starts
  with \<open>image/\<close> only sets the global validation error: the batch and the results
  stay what they were, every other field of the state too, and no compression run is
  started.
\<close>

theorem no_image_selection_rejected:
  assumes "files \<noteq> []" and "\<forall>f \<in> set files. \<not> prefix ''image/'' (type f)"
  shows "handleFileSelect files s = s\<lparr>errors := [(''global'', msgSelectImages)]\<rparr>
     \<and> originalFiles (handleFileSelect files s) = originalFiles s
     \<and> compressedResults (handleFileSelect files s) = compressedResults s
     \<and> inflight (step env (Select files) w) = inflight w"
proof -
  have none: "filter isImage files = []"
    using assms(2) by (simp add: isImage_def filter_empty_conv)
  have only_error: "handleFileSelect files s = s\<lparr>errors := [(''global'', msgSelectImages)]\<rparr>"
    for s
    using assms(1) none by (simp add: handleFileSelect_def)
  have "inflight (step env (Select files) w) = inflight w"
    by (simp add: only_error useEffect_def)
  with only_error show ?thesis
    by simp
qed

theorem no_image_selection_rejected_witness:
  "[textNotes] \<noteq> [] \<and> \<not> prefix ''image/'' (type textNotes)
   \<and> handleFileSelect [textNotes] initialState
       = initialState\<lparr>errors := [(''global'', msgSelectImages)]\<rparr>
   \<and> originalFiles (handleFileSelect [textNotes] initialState) = []
   \<and> compressedResults (handleFileSelect [textNotes] initialState) = []
   \<and> inflight (step sampleBrowser (Select [textNotes]) initialPage) = []"
proof -
  have nonempty: "[textNotes] \<noteq> []"
    by simp
  have no_image: "\<forall>f \<in> set [textNotes]. \<not> prefix ''image/'' (type f)"
    by (simp add: textNotes_def)
  have start: "originalFiles initialState = []" "compressedResults initialState = []"
    "inflight initialPage = []"
    by (simp_all add: initialState_def initialPage_def)
  have "handleFileSelect [textNotes] initialState
          = initialState\<lparr>errors := [(''global'', msgSelectImages)]\<rparr>
      \<and> originalFiles (handleFileSelect [textNotes] initialState) = []
      \<and> compressedResults (handleFileSelect [textNotes] initialState) = []
      \<and> inflight (step sampleBrowser (Select [textNotes]) initialPage) = []"
    using no_image_selection_rejected
      [OF nonempty no_image, of initialState sampleBrowser initialPage]
    unfolding start .
  moreover have "\<not> prefix ''image/'' (type textNotes)"
    by (simp add: textNotes_def)
  ultimately show ?thesis
    using nonempty by blast
qed

text \<open>
  Claim C5. When more than five files of the selection have a media type that starts
  with \<open>image/\<close>, the batch is the first five of them in the order of the selection,
  and the error map is left empty: nothing is signalled for the files dropped.
\<close>

theorem batch_truncated_to_five:
  assumes "5 < length (filter (\<lambda>f. prefix ''image/'' (type f)) files)"
  shows "originalFiles (handleFileSelect files s)
           = take 5 (filter (\<lambda>f. prefix ''image/'' (type f)) files)
     \<and> length (originalFiles (handleFileSelect files s)) = 5
     \<and> errors (handleFileSelect files s) = []"
  using assms by (auto simp: handleFileSelect_def isImage_def [abs_def] Let_def)

theorem batch_truncated_to_five_witness:
  "5 < length (filter (\<lambda>f. prefix ''image/'' (type f))
         [photo, textNotes, corruptPhoto, photo, photoOtherFolder, photo, textNotes, photo, photo])
   \<and> originalFiles (handleFileSelect
         [photo, textNotes, corruptPhoto, photo, photoOtherFolder, photo, textNotes, photo, photo]
         initialState)
       = [photo, corruptPhoto, photo, photoOtherFolder, photo]
   \<and> errors (handleFileSelect
         [photo, textNotes, corruptPhoto, photo, photoOtherFolder, photo, textNotes, photo, photo]
         initialState) = []"
proof -
  have many: "5 < length (filter (\<lambda>f. prefix ''image/'' (type f))
      [photo, textNotes, corruptPhoto, photo, photoOtherFolder, photo, textNotes, photo, photo])"
    by (simp add: photo_def textNotes_def corruptPhoto_def photoOtherFolder_def)
  have five: "take 5 (filter (\<lambda>f. prefix ''image/'' (type f))
      [photo, textNotes, corruptPhoto, photo, photoOtherFolder, photo, textNotes, photo, photo])
      = [photo, corruptPhoto, photo, photoOtherFolder, photo]"
    by (simp add: photo_def textNotes_def corruptPhoto_def photoOtherFolder_def)
  from batch_truncated_to_five [OF many, of initialState] many five
  show ?thesis
    by simp
qed

section \<open>Properties of the quality parameter and of reset\<close>







lemma revokeAll_shown:
  "revokeAll m st = st\<lparr>revocations := revocations st @ shownUrls m\<rparr>"
  unfolding revokeAll_def shownUrls_def
  by (induction m arbitrary: st) (auto simp: revokeObjectURL_def)



section \<open>Properties of the compression task and of a run\<close>

lemma compressFile_cases:
  assumes "compressFile env f q st = (r, st')"
  shows "(\<exists>e. r = Inl e \<and> st' = st)
       \<or> (\<exists>v. r = Inr v \<and> url v = created st \<and> st' = st\<lparr>created := Suc (created st)\<rparr>)"
  using assms
  by (auto simp: compressFile_def createObjectURL_def
      split: readerEvent.splits option.splits imageEvent.splits if_splits)

lemma allSettled_store:
  assumes "allSettled env fs q st = (rs, st')"
  shows "length rs = length fs \<and> revocations st' = revocations st
       \<and> created st \<le> created st' \<and> urlsOf rs = [created st ..< created st']"
  using assms
proof (induction fs arbitrary: st rs st')
  case Nil
  then show ?case by simp
next
  case (Cons f fs)
  obtain r st1 where c: "compressFile env f q st = (r, st1)"
    by (cases "compressFile env f q st")
  obtain rs1 st2 where a: "allSettled env fs q st1 = (rs1, st2)"
    by (cases "allSettled env fs q st1")
  from Cons.prems c a have rs: "rs = r # rs1" and st': "st' = st2"
    by simp_all
  note ih = Cons.IH [OF a]
  from compressFile_cases [OF c] show ?case
  proof (elim disjE exE conjE)
    fix e assume "r = Inl e" "st1 = st"
    with ih rs st' show ?thesis by simp
  next
    fix v assume "r = Inr v" "url v = created st" "st1 = st\<lparr>created := Suc (created st)\<rparr>"
    with ih rs st' show ?thesis
      by (simp add: upt_conv_Cons)
  qed
qed

lemma compressFile_size_store:
  "outcomeSize (fst (compressFile env f q st)) = outcomeSize (fst (compressFile env f q st'))"
  by (simp add: compressFile_def outcomeSize_def createObjectURL_def
      split: readerEvent.splits option.splits imageEvent.splits)

lemma allSettled_size_store:
  "map outcomeSize (fst (allSettled env fs q st)) = map outcomeSize (fst (allSettled env fs q st'))"
proof (induction fs arbitrary: st st')
  case Nil
  show ?case by simp
next
  case (Cons f fs)
  obtain r st1 where a: "compressFile env f q st = (r, st1)"
    by (cases "compressFile env f q st")
  obtain r' st1' where b: "compressFile env f q st' = (r', st1')"
    by (cases "compressFile env f q st'")
  have "outcomeSize r = outcomeSize r'"
    using compressFile_size_store [of env f q st st'] a b by simp
  with Cons.IH [of st1 st1'] a b show ?case
    by (simp add: case_prod_beta)
qed

lemma update_sizes:
  "map (apsnd size_result) (AList.update k v al) =
     AList.update k (size_result v) (map (apsnd size_result) al)"
  by (induction al) auto

lemma fold_recordOutcome_sizes:
  assumes "map outcomeSize rs = map outcomeSize rs'"
    and "map (apsnd size_result) (fst acc) = map (apsnd size_result) (fst acc')"
    and "snd acc = snd acc'"
  shows "map (apsnd size_result) (fst (fold recordOutcome (zip files rs) acc)) =
         map (apsnd size_result) (fst (fold recordOutcome (zip files rs') acc'))
       \<and> snd (fold recordOutcome (zip files rs) acc) = snd (fold recordOutcome (zip files rs') acc')"
  using assms
proof (induction files arbitrary: rs rs' acc acc')
  case Nil
  then show ?case by simp
next
  case (Cons f files)
  show ?case
  proof (cases rs)
    case Nil
    with Cons.prems show ?thesis by simp
  next
    case (Cons r rs1)
    then obtain r' rs1' where rs': "rs' = r' # rs1'"
      using Cons.prems(1) by (cases rs') auto
    obtain a b where acc: "acc = (a, b)"
      by (cases acc)
    obtain a' b' where acc': "acc' = (a', b')"
      by (cases acc')
    have one: "map (apsnd size_result) (fst (recordOutcome (f, r) acc)) =
               map (apsnd size_result) (fst (recordOutcome (f, r') acc'))
             \<and> snd (recordOutcome (f, r) acc) = snd (recordOutcome (f, r') acc')"
      using Cons.prems Cons rs' acc acc'
      by (cases r; cases r') (auto simp: outcomeSize_def update_sizes)
    have rest: "map outcomeSize rs1 = map outcomeSize rs1'"
      using Cons.prems(1) Cons rs' by simp
    show ?thesis
      using Cons.IH [OF rest, of "recordOutcome (f, r) acc" "recordOutcome (f, r') acc'"]
        one Cons rs'
      by simp
  qed
qed

lemma processFiles_finish_maps:
  "compressedResults (processFiles_finish fs rs s) = fst (collectOutcomes fs rs)
   \<and> errors (processFiles_finish fs rs s) = snd (collectOutcomes fs rs)"
  by (simp add: processFiles_finish_def case_prod_beta)

text \<open>
  Claim C7. The browser's reader, decoder and encoder being functions, two runs over
  the same batch with the same quality give every file the same outcome with the same
  encoded byte size, whatever the rest of the state and whatever URLs have been created
  or revoked before; only the URLs differ. The same holds for two runs of
  \<open>compressFile\<close> on one file.
\<close>

theorem rerun_same_sizes:
  assumes "originalFiles s1 = originalFiles s2" and "quality s1 = quality s2"
  shows "map (apsnd size_result) (compressedResults (fst (processFiles env (s1, st1)))) =
         map (apsnd size_result) (compressedResults (fst (processFiles env (s2, st2))))
       \<and> errors (fst (processFiles env (s1, st1))) = errors (fst (processFiles env (s2, st2)))
       \<and> map_sum id size_result (fst (compressFile env f q st1)) =
           map_sum id size_result (fst (compressFile env f q st2))"
proof -
  let ?b1 = "snd (processFiles_begin (s1, st1))"
  let ?b2 = "snd (processFiles_begin (s2, st2))"
  let ?r1 = "fst (allSettled env (originalFiles s1) (quality s1) ?b1)"
  let ?r2 = "fst (allSettled env (originalFiles s1) (quality s1) ?b2)"
  have same: "map outcomeSize ?r1 = map outcomeSize ?r2"
    by (rule allSettled_size_store)
  have col: "map (apsnd size_result) (fst (collectOutcomes (originalFiles s1) ?r1)) =
             map (apsnd size_result) (fst (collectOutcomes (originalFiles s1) ?r2))
           \<and> snd (collectOutcomes (originalFiles s1) ?r1)
               = snd (collectOutcomes (originalFiles s1) ?r2)"
    unfolding collectOutcomes_def
    by (rule fold_recordOutcome_sizes [OF same]) simp_all
  have p1: "fst (processFiles env (s1, st1)) =
      processFiles_finish (originalFiles s1) ?r1 (fst (processFiles_begin (s1, st1)))"
    by (simp add: processFiles_def split: prod.splits)
  have p2: "fst (processFiles env (s2, st2)) =
      processFiles_finish (originalFiles s1) ?r2 (fst (processFiles_begin (s2, st2)))"
    using assms by (simp add: processFiles_def split: prod.splits)
  show ?thesis
    using col compressFile_size_store [of env f q st1 st2]
    by (simp add: p1 p2 processFiles_finish_maps outcomeSize_def)
qed

theorem rerun_same_sizes_witness:
  "originalFiles (initialState\<lparr>originalFiles := [photo]\<rparr>)
     = originalFiles (initialState\<lparr>originalFiles := [photo], isProcessing := True\<rparr>)
   \<and> quality (initialState\<lparr>originalFiles := [photo]\<rparr>)
     = quality (initialState\<lparr>originalFiles := [photo], isProcessing := True\<rparr>)
   \<and> map (apsnd size_result) (compressedResults (fst (processFiles sampleBrowser
         (initialState\<lparr>originalFiles := [photo]\<rparr>, emptyStore))))
     = map (apsnd size_result) (compressedResults (fst (processFiles sampleBrowser
         (initialState\<lparr>originalFiles := [photo], isProcessing := True\<rparr>,
          \<lparr>created = 7, revocations = [3]\<rparr>))))
   \<and> map (apsnd size_result) (compressedResults (fst (processFiles sampleBrowser
         (initialState\<lparr>originalFiles := [photo]\<rparr>, emptyStore))))
     = [(''photo.png'', 8)]"
proof -
  have batch: "originalFiles (initialState\<lparr>originalFiles := [photo]\<rparr>)
      = originalFiles (initialState\<lparr>originalFiles := [photo], isProcessing := True\<rparr>)"
    by simp
  have q: "quality (initialState\<lparr>originalFiles := [photo]\<rparr>)
      = quality (initialState\<lparr>originalFiles := [photo], isProcessing := True\<rparr>)"
    by simp
  have sizes: "map (apsnd size_result) (compressedResults (fst (processFiles sampleBrowser
         (initialState\<lparr>originalFiles := [photo]\<rparr>, emptyStore))))
     = [(''photo.png'', 8)]"
    by code_simp
  from rerun_same_sizes [OF batch q, of sampleBrowser emptyStore
      "\<lparr>created = 7, revocations = [3]\<rparr>" photo "1 / 2"] batch q sizes
  show ?thesis
    by blast
qed

section \<open>Failure messages\<close>




section \<open>One outcome for each file\<close>

lemma keys_update: "fst ` set (AList.update k v al) = insert k (fst ` set al)"
  by (induction al) auto

lemma recordOutcome_keys:
  "fst ` set (fst (recordOutcome (f, r) acc)) \<subseteq> insert (name f) (fst ` set (fst acc))
   \<and> fst ` set (snd (recordOutcome (f, r) acc)) \<subseteq> insert (name f) (fst ` set (snd acc))"
  by (cases acc; cases r) (auto simp: keys_update)

lemma collectOutcomes_snoc:
  assumes "length rs = length files"
  shows "collectOutcomes (files @ [f]) (rs @ [r]) = recordOutcome (f, r) (collectOutcomes files rs)"
  using assms by (simp add: collectOutcomes_def)

lemma collectOutcomes_keys:
  assumes "length rs = length files"
  shows "fst ` set (fst (collectOutcomes files rs)) \<subseteq> name ` set files
       \<and> fst ` set (snd (collectOutcomes files rs)) \<subseteq> name ` set files"
  using assms
proof (induction files arbitrary: rs rule: rev_induct)
  case Nil
  then show ?case by (simp add: collectOutcomes_def)
next
  case (snoc f files)
  then obtain rs1 r where rs: "rs = rs1 @ [r]" and len: "length rs1 = length files"
    by (cases rs rule: rev_cases) auto
  from snoc.IH [OF len] recordOutcome_keys [of f r "collectOutcomes files rs1"]
  show ?case
    unfolding rs collectOutcomes_snoc [OF len] by simp blast
qed

lemma map_of_absent: "k \<notin> fst ` set al \<Longrightarrow> map_of al k = None"
  by (simp add: map_of_eq_None_iff)

lemma collectOutcomes_own_outcome:
  assumes "distinct (map name files)" and "length rs = length files" and "i < length files"
  shows "case rs ! i of
           Inr v \<Rightarrow> map_of (fst (collectOutcomes files rs)) (name (files ! i)) = Some v
                  \<and> map_of (snd (collectOutcomes files rs)) (name (files ! i)) = None
         | Inl r \<Rightarrow> map_of (fst (collectOutcomes files rs)) (name (files ! i)) = None
                  \<and> map_of (snd (collectOutcomes files rs)) (name (files ! i))
                      = Some (failureMessage r)"
  using assms
proof (induction files arbitrary: rs i rule: rev_induct)
  case Nil
  then show ?case by simp
next
  case (snoc f files)
  then obtain rs1 r where rs: "rs = rs1 @ [r]" and len: "length rs1 = length files"
    by (cases rs rule: rev_cases) auto
  obtain a b where acc: "collectOutcomes files rs1 = (a, b)"
    by (cases "collectOutcomes files rs1")
  have dist: "distinct (map name files)" and new: "name f \<notin> name ` set files"
    using snoc.prems(1) by simp_all
  note col = collectOutcomes_snoc [OF len, of f r]
  show ?case
  proof (cases "i < length files")
    case True
    then have other: "name (files ! i) \<noteq> name f"
      using new by (metis imageI nth_mem)
    from snoc.IH [OF dist len True] True other acc show ?thesis
      unfolding rs col
      by (cases r) (auto simp: nth_append len update_conv' split: sum.splits)
  next
    case False
    with snoc.prems(3) have i: "i = length files"
      by simp
    from collectOutcomes_keys [OF len] new acc
    have "map_of a (name f) = None" "map_of b (name f) = None"
      by (auto intro!: map_of_absent)
    with i acc show ?thesis
      unfolding rs col
      by (cases r) (auto simp: nth_append len update_conv')
  qed
qed

lemma every_file_one_outcome_distinct_names:
  assumes "distinct (map name (originalFiles s))" and "f \<in> set (originalFiles s)"
  shows "(map_of (compressedResults (fst (processFiles env (s, st)))) (name f) = None)
       \<noteq> (map_of (errors (fst (processFiles env (s, st)))) (name f) = None)"
proof -
  obtain s1 st1 where b: "processFiles_begin (s, st) = (s1, st1)"
    by (cases "processFiles_begin (s, st)")
  obtain rs st2 where a: "allSettled env (originalFiles s) (quality s) st1 = (rs, st2)"
    by (cases "allSettled env (originalFiles s) (quality s) st1")
  have len: "length rs = length (originalFiles s)"
    using allSettled_store [OF a] by simp
  have p: "fst (processFiles env (s, st)) = processFiles_finish (originalFiles s) rs s1"
    using a b by (simp add: processFiles_def)
  have fin: "compressedResults (processFiles_finish fs rs s1) = fst (collectOutcomes fs rs)
      \<and> errors (processFiles_finish fs rs s1) = snd (collectOutcomes fs rs)" for fs
    by (simp add: processFiles_finish_def case_prod_beta)
  from assms(2) obtain i where i: "i < length (originalFiles s)" "originalFiles s ! i = f"
    by (auto simp: in_set_conv_nth)
  from collectOutcomes_own_outcome [OF assms(1) len i(1)] i(2) show ?thesis
    by (cases "rs ! i") (simp_all add: p fin)
qed

text \<open>
  Claim C3 on a batch of two files that carry the same name, the first a valid image
  and the second not an image at all. The run settles with both tasks done, and the one
  name is then in the results map and in the error map at once: the second file is
  shown with the first file's result.
\<close>

theorem same_name_in_both_maps:
  "(let (s, st) = processFiles sampleBrowser
                    (handleFileSelect [photo, corruptPhoto] initialState, emptyStore)
    in originalFiles s = [photo, corruptPhoto] \<and> isProcessing s = False
       \<and> map (\<lambda>(n, r). (n, url r)) (compressedResults s) = [(''photo.png'', 0)]
       \<and> map fst (errors s) = [''photo.png''])"
  by code_simp

section \<open>Release of the transient handles\<close>

lemma shownUrls_update_subset:
  "set (shownUrls (AList.update k v al)) \<subseteq> insert (url v) (set (shownUrls al))"
  by (induction al) (auto simp: shownUrls_def)

lemma shownUrls_update_distinct:
  "distinct (shownUrls al) \<Longrightarrow> url v \<notin> set (shownUrls al)
     \<Longrightarrow> distinct (shownUrls (AList.update k v al))"
proof (induction al)
  case Nil
  then show ?case by (simp add: shownUrls_def)
next
  case (Cons a al)
  have "set (shownUrls (AList.update k v al)) \<subseteq> insert (url v) (set (shownUrls al))"
    by (rule shownUrls_update_subset)
  with Cons show ?case
    by (cases a) (auto simp: shownUrls_def)
qed

lemma fold_recordOutcome_urls:
  assumes "distinct (shownUrls a @ urlsOf rs)"
  shows "distinct (shownUrls (fst (fold recordOutcome (zip files rs) (a, b))))
       \<and> set (shownUrls (fst (fold recordOutcome (zip files rs) (a, b))))
           \<subseteq> set (shownUrls a) \<union> set (urlsOf rs)"
  using assms
proof (induction files arbitrary: rs a b)
  case Nil
  then show ?case by simp
next
  case (Cons f files)
  show ?case
  proof (cases rs)
    case Nil
    with Cons.prems show ?thesis by simp
  next
    case (Cons r rs1)
    show ?thesis
    proof (cases r)
      case (Inl e)
      with Cons.prems Cons Cons.IH [of a rs1] show ?thesis
        by simp
    next
      case (Inr v)
      have d: "distinct (shownUrls (AList.update (name f) v a) @ urlsOf rs1)"
        using Cons.prems Cons Inr shownUrls_update_subset [of "name f" v a]
          shownUrls_update_distinct [of a v "name f"]
        by auto
      from Cons.IH [OF d, of b] Cons Inr shownUrls_update_subset [of "name f" v a]
      show ?thesis
        by auto
    qed
  qed
qed

lemma collectOutcomes_urls:
  assumes "distinct (urlsOf rs)"
  shows "distinct (shownUrls (fst (collectOutcomes files rs)))
       \<and> set (shownUrls (fst (collectOutcomes files rs))) \<subseteq> set (urlsOf rs)"
  using fold_recordOutcome_urls [of "[]" rs files "[]"] assms
  by (simp add: collectOutcomes_def shownUrls_def)

lemma shownUrls_Nil: "shownUrls [] = []"
  by (simp add: shownUrls_def)

lemma hygienic_begin:
  assumes "hygienic w"
  shows "hygienic (w\<lparr>app := fst (processFiles_begin (app w, urls w)),
                     urls := snd (processFiles_begin (app w, urls w))\<rparr>)"
  using assms
  by (simp add: hygienic_def processFiles_begin_def revokeAll_shown shownUrls_Nil)

lemma hygienic_app_fields:
  assumes "hygienic w" and "compressedResults s = compressedResults (app w) \<or> compressedResults s = []"
  shows "hygienic (w\<lparr>app := s\<rparr>)"
  using assms by (auto simp: hygienic_def shownUrls_Nil)

lemma hygienic_useEffect: "hygienic w \<Longrightarrow> hygienic (useEffect w)"
  using hygienic_begin [of w]
  by (simp add: useEffect_def hygienic_def case_prod_beta)

lemma hygienic_reset:
  assumes "hygienic w"
  shows "hygienic (w\<lparr>app := fst (handleReset (app w, urls w)),
                     urls := snd (handleReset (app w, urls w))\<rparr>)"
  using assms
  by (simp add: hygienic_def handleReset_def revokeAll_shown shownUrls_Nil)

lemma hygienic_settle:
  assumes "hygienic w" and "allSettled env fs q (urls w) = (rs, st)"
  shows "hygienic \<lparr>app = processFiles_finish fs rs (app w), urls = st, inflight = rest\<rparr>"
proof -
  note st = allSettled_store [OF assms(2)]
  have fresh: "urlsOf rs = [created (urls w) ..< created st]"
    using st by simp
  then have "distinct (urlsOf rs)"
    by simp
  from collectOutcomes_urls [OF this, of fs] fresh
  have shown: "distinct (shownUrls (fst (collectOutcomes fs rs)))"
    "set (shownUrls (fst (collectOutcomes fs rs))) \<subseteq> {created (urls w) ..< created st}"
    by simp_all
  have res: "compressedResults (processFiles_finish fs rs (app w)) = fst (collectOutcomes fs rs)"
    by (simp add: processFiles_finish_def case_prod_beta)
  have old: "distinct (revocations (urls w))" "set (revocations (urls w)) \<subseteq> {..< created (urls w)}"
    using assms(1) by (simp_all add: hygienic_def)
  have "set (revocations (urls w)) \<inter> set (shownUrls (fst (collectOutcomes fs rs))) = {}"
    using old(2) shown(2) by fastforce
  moreover have "set (shownUrls (fst (collectOutcomes fs rs))) \<subseteq> {..< created st}"
    using shown(2) by fastforce
  moreover have "set (revocations (urls w)) \<subseteq> {..< created st}"
    using old(2) st by fastforce
  ultimately show ?thesis
    using old(1) shown(1) st by (simp add: hygienic_def res)
qed

lemma hygienic_step: "hygienic w \<Longrightarrow> hygienic (step env ev w)"
proof (cases ev)
  case (Select files)
  assume h: "hygienic w"
  have "compressedResults (handleFileSelect files (app w)) = compressedResults (app w)
      \<or> compressedResults (handleFileSelect files (app w)) = []"
    by (simp add: handleFileSelect_def Let_def)
  from hygienic_app_fields [OF h this] Select h show ?thesis
    by (simp add: hygienic_useEffect)
next
  case (SetQuality q)
  assume h: "hygienic w"
  have "hygienic (w\<lparr>app := (app w)\<lparr>quality := q\<rparr>\<rparr>)"
    by (rule hygienic_app_fields [OF h]) simp
  with SetQuality h show ?thesis
    by (simp add: hygienic_useEffect)
next
  case Reset
  assume h: "hygienic w"
  from hygienic_reset [OF h] Reset h show ?thesis
    by (simp add: hygienic_useEffect case_prod_beta)
next
  case (Settle n)
  assume h: "hygienic w"
  show ?thesis
  proof (cases "n < length (inflight w)")
    case True
    obtain rs st where a:
      "allSettled env (run_files (inflight w ! n)) (run_quality (inflight w ! n)) (urls w) = (rs, st)"
      by (cases "allSettled env (run_files (inflight w ! n)) (run_quality (inflight w ! n)) (urls w)")
    from hygienic_settle [OF h a] Settle True a show ?thesis
      by simp
  next
    case False
    with Settle h show ?thesis by simp
  qed
qed

lemma hygienic_events: "hygienic w \<Longrightarrow> hygienic (events env evs w)"
  unfolding events_def
  by (induction evs arbitrary: w) (simp_all add: hygienic_step)

lemma hygienic_initial: "hygienic initialPage"
  by (simp add: hygienic_def initialPage_def initialState_def emptyStore_def shownUrls_def)

lemma never_twice_never_displayed:
  "distinct (revocations (urls (events env evs initialPage)))
   \<and> set (revocations (urls (events env evs initialPage)))
       \<inter> set (shownUrls (compressedResults (app (events env evs initialPage)))) = {}"
  using hygienic_events [OF hygienic_initial, of env evs]
  by (simp add: hygienic_def)

lemma count_list_distinct: "distinct xs \<Longrightarrow> x \<in> set xs \<Longrightarrow> count_list xs x = 1"
  by (induction xs) (auto simp: count_list_0_iff)

lemma displayed_released_once:
  assumes "hygienic w" and "u \<in> set (shownUrls (compressedResults (app w)))"
  shows "count_list (revocations (snd (handleReset (app w, urls w)))) u = 1
       \<and> count_list (revocations (snd (processFiles_begin (app w, urls w)))) u = 1"
proof -
  have "u \<notin> set (revocations (urls w))"
    using assms by (auto simp: hygienic_def)
  then have "count_list (revocations (urls w)) u = 0"
    by (simp add: count_list_0_iff)
  moreover have "count_list (shownUrls (compressedResults (app w))) u = 1"
    using assms by (simp add: hygienic_def count_list_distinct)
  ultimately show ?thesis
    by (simp add: handleReset_def processFiles_begin_def revokeAll_shown)
qed


text \<open>
  Claim C1 on two sequences of events. In the first, two files with the same name are
  selected, both are compressed, and the user resets: two URLs have been created, the
  results map kept only the second, and the reset revoked only that one. In the second,
  the user resets while the first run is still in flight; the run then settles into the
  emptied page, the next selection throws its result away without revoking it, and the
  final reset revokes only the URL of the second run. Either way URL 0 is never revoked,
  and nothing refers to it any more.
\<close>

theorem handle_never_released:
  "(let w = events sampleBrowser
              [Select [photo, photoOtherFolder], Settle 0, Reset] initialPage
    in created (urls w) = 2 \<and> revocations (urls w) = [1]
       \<and> app w = initialState \<and> inflight w = [])
   \<and> (let w = events sampleBrowser
              [Select [photo], Reset, Settle 0, Select [photoOtherFolder], Settle 0, Reset]
              initialPage
      in created (urls w) = 2 \<and> revocations (urls w) = [1]
         \<and> app w = initialState \<and> inflight w = [])"
  by code_simp

end
